theory Spec2Isabelle
  imports Main
begin

section \<open>Python values used by the bundle code\<close>

text \<open>
  The two functions of \<^verbatim>\<open>PdbFile\<close> that do text processing are embedded here:
  \<^verbatim>\<open>parsePdbBundleChainIdFile\<close> (the reader of the chain-id mapping file of a PDB
  bundle) and \<^verbatim>\<open>parsePdbAndTranslateChain\<close> (the rewriting of the chain column of
  ATOM/HETATM records), together with the part of \<^verbatim>\<open>download\<close> that looks the
  requested chain up in the tables.

  A Python \<^verbatim>\<open>str\<close> is a \<^typ>\<open>string\<close>; a \<^typ>\<open>char\<close> stands for a code point
  below 256 (the files are ASCII). The mapping file is the list of its lines without
  their terminators; reading a line gives the line followed by the newline character.
  The structure file is the list of its lines as they are read, terminators included.
  Exceptions are values of \<open>py_error\<close>.
\<close>

datatype py_error = IndexError | TypeError | CsvError

abbreviation NL :: string where
  "NL \<equiv> [CHR 0x0A]"

definition isspace :: "char \<Rightarrow> bool" where
  \<comment> \<open>\<^verbatim>\<open>str.isspace\<close> on the code points below 256\<close>
  "isspace c = ((of_char c :: nat) \<in> {9, 10, 11, 12, 13, 28, 29, 30, 31, 32, 133, 160})"

definition py_lstrip :: "string \<Rightarrow> string" where
  "py_lstrip s = dropWhile isspace s"

definition py_rstrip :: "string \<Rightarrow> string" where
  "py_rstrip s = rev (dropWhile isspace (rev s))"

definition py_strip :: "string \<Rightarrow> string" where
  "py_strip s = py_lstrip (py_rstrip s)"

fun split_acc :: "string \<Rightarrow> string \<Rightarrow> string list" where
  "split_acc cur [] = (if cur = [] then [] else [cur])"
| "split_acc cur (c # cs) =
     (if isspace c then (if cur = [] then split_acc [] cs else cur # split_acc [] cs)
      else split_acc (cur @ [c]) cs)"

definition py_split :: "string \<Rightarrow> string list" where
  \<comment> \<open>\<^verbatim>\<open>s.split()\<close>: the maximal runs of non-whitespace characters\<close>
  "py_split s = split_acc [] s"

fun find_from :: "string \<Rightarrow> nat \<Rightarrow> string \<Rightarrow> int" where
  "find_from sub i [] = (if sub = [] then int i else - 1)"
| "find_from sub i (c # cs) =
     (if take (length sub) (c # cs) = sub then int i else find_from sub (Suc i) cs)"

definition py_find :: "string \<Rightarrow> string \<Rightarrow> int" where
  \<comment> \<open>\<^verbatim>\<open>s.find(sub)\<close>: the lowest index where \<open>sub\<close> occurs in \<open>s\<close>, or -1\<close>
  "py_find s sub = find_from sub 0 s"

section \<open>The reader of the chain-id mapping file\<close>

record parse_state =
  cnt :: nat
  files :: "string list"
  mapChain :: "string \<rightharpoonup> string"
  mapFile :: "string \<rightharpoonup> string"
  actualFile :: string

definition parse_init :: parse_state where
  "parse_init = \<lparr>cnt = 1, files = [], mapChain = Map.empty, mapFile = Map.empty,
     actualFile = []\<rparr>"

definition parse_step :: "parse_state \<Rightarrow> string \<Rightarrow> py_error + parse_state" where
  \<comment> \<open>one round of the \<^verbatim>\<open>while line:\<close> loop, on the text \<open>raw\<close> that readline returned\<close>
  "parse_step st0 raw =
     (let line = py_rstrip (py_strip raw);
          st = st0\<lparr>cnt := cnt st0 + 1\<rparr>
      in if py_find line ''pdb-bundle'' \<ge> 0 then
           Inr (st\<lparr>actualFile := butlast line, files := files st @ [butlast line]\<rparr>)
         else if actualFile st \<noteq> [] \<and> line \<noteq> [] then
           (let mapping = py_split line
            in if length mapping \<le> 1 then Inl IndexError
               else (let key = py_strip (mapping ! 1);
                         val = py_strip (mapping ! 0)
                     in Inr (st\<lparr>mapChain := (mapChain st)(key \<mapsto> val),
                                mapFile := (mapFile st)(key \<mapsto> actualFile st)\<rparr>)))
         else Inr st)"

fun parse_loop :: "parse_state \<Rightarrow> string list \<Rightarrow> py_error + parse_state" where
  "parse_loop st [] = Inr st"
| "parse_loop st (l # ls) =
     (case parse_step st (l @ NL) of
        Inl e \<Rightarrow> Inl e
      | Inr st' \<Rightarrow> parse_loop st' ls)"

definition parsePdbBundleChainIdFile ::
  "string list \<Rightarrow> py_error + ((string \<rightharpoonup> string) \<times> (string \<rightharpoonup> string))" where
  "parsePdbBundleChainIdFile fp =
     (case parse_loop parse_init fp of
        Inl e \<Rightarrow> Inl e
      | Inr st \<Rightarrow> Inr (mapFile st, mapChain st))"

section \<open>The lookup in download\<close>

datatype bundle_action =
  TranslateChain string string "string option"
| MoveAndFilter string string

definition download_bundle ::
  "string \<Rightarrow> string \<Rightarrow> string \<Rightarrow> string list \<Rightarrow> py_error + bundle_action" where
  \<comment> \<open>\<^verbatim>\<open>download\<close> after the bundle is unpacked: \<open>str + None\<close> raises TypeError\<close>
  "download_bundle dir pdbcode chain mapping_txt =
     (case parsePdbBundleChainIdFile mapping_txt of
        Inl e \<Rightarrow> Inl e
      | Inr (tabFile, tabChain) \<Rightarrow>
          (let newChain = tabChain chain
           in case tabFile chain of
                None \<Rightarrow> Inl TypeError
              | Some f \<Rightarrow>
                  (let pdbBundleFile = dir @ ''/'' @ f
                   in if newChain \<noteq> Some chain
                      then Inr (TranslateChain pdbBundleFile chain newChain)
                      else Inr (MoveAndFilter (dir @ ''/'' @ f)
                                  (dir @ ''/'' @ pdbcode @ ''.pdb'')))))"

section \<open>The csv reader\<close>

text \<open>
  \<^verbatim>\<open>parsePdbAndTranslateChain\<close> reads its input through \<^verbatim>\<open>csv.reader\<close> with the
  default dialect: delimiter comma, quote character double quote, doubled quotes, not
  strict, no escape character. The reader is the state machine of the csv module; \<open>None\<close>
  is the end-of-line mark it feeds after the characters of each line. Its input is the
  list of the lines as the file object yields them, each with its terminator (the last
  one possibly without). A field may hold at most 131072 characters: adding one more
  raises the error of the csv module.
\<close>

datatype csv_state =
  START_RECORD | START_FIELD | IN_FIELD | IN_QUOTED_FIELD | QUOTE_IN_QUOTED_FIELD | EAT_CRNL

record csv_parser =
  state :: csv_state
  field :: string
  fields' :: "string list"

definition parse_reset :: csv_parser where
  "parse_reset = \<lparr>state = START_RECORD, field = [], fields' = []\<rparr>"

definition parse_save_field :: "csv_parser \<Rightarrow> csv_parser" where
  "parse_save_field p = p\<lparr>fields' := fields' p @ [field p], field := []\<rparr>"

definition field_limit :: nat where
  "field_limit = 131072"

definition parse_add_char :: "csv_parser \<Rightarrow> char \<Rightarrow> py_error + csv_parser" where
  "parse_add_char p c =
     (if field_limit \<le> length (field p) then Inl CsvError
      else Inr (p\<lparr>field := field p @ [c]\<rparr>))"

definition add_char_then :: "csv_parser \<Rightarrow> char \<Rightarrow> csv_state \<Rightarrow> py_error + csv_parser" where
  \<comment> \<open>\<^verbatim>\<open>parse_add_char\<close>, and when it succeeds the assignment to \<^verbatim>\<open>self->state\<close>\<close>
  "add_char_then p c s =
     (case parse_add_char p c of
        Inl e \<Rightarrow> Inl e
      | Inr p' \<Rightarrow> Inr (p'\<lparr>state := s\<rparr>))"

definition is_crnl :: "char option \<Rightarrow> bool" where
  "is_crnl c = (c = Some (CHR 0x0A) \<or> c = Some (CHR 0x0D))"

definition start_field :: "csv_parser \<Rightarrow> char option \<Rightarrow> py_error + csv_parser" where
  "start_field p c =
     (if is_crnl c \<or> c = None then
        Inr ((parse_save_field p)\<lparr>state := (if c = None then START_RECORD else EAT_CRNL)\<rparr>)
      else if c = Some (CHR 0x22) then Inr (p\<lparr>state := IN_QUOTED_FIELD\<rparr>)
      else if c = Some CHR '','' then Inr (parse_save_field p)
      else add_char_then p (the c) IN_FIELD)"

definition parse_process_char :: "csv_parser \<Rightarrow> char option \<Rightarrow> py_error + csv_parser" where
  "parse_process_char p c =
     (case state p of
        START_RECORD \<Rightarrow>
          (if c = None then Inr p
           else if is_crnl c then Inr (p\<lparr>state := EAT_CRNL\<rparr>)
           else start_field (p\<lparr>state := START_FIELD\<rparr>) c)
      | START_FIELD \<Rightarrow> start_field p c
      | IN_FIELD \<Rightarrow>
          (if is_crnl c \<or> c = None then
             Inr ((parse_save_field p)\<lparr>state := (if c = None then START_RECORD else EAT_CRNL)\<rparr>)
           else if c = Some CHR '','' then Inr ((parse_save_field p)\<lparr>state := START_FIELD\<rparr>)
           else parse_add_char p (the c))
      | IN_QUOTED_FIELD \<Rightarrow>
          (if c = None then Inr p
           else if c = Some (CHR 0x22) then Inr (p\<lparr>state := QUOTE_IN_QUOTED_FIELD\<rparr>)
           else parse_add_char p (the c))
      | QUOTE_IN_QUOTED_FIELD \<Rightarrow>
          (if c = Some (CHR 0x22) then add_char_then p (the c) IN_QUOTED_FIELD
           else if c = Some CHR '','' then Inr ((parse_save_field p)\<lparr>state := START_FIELD\<rparr>)
           else if is_crnl c \<or> c = None then
             Inr ((parse_save_field p)\<lparr>state := (if c = None then START_RECORD else EAT_CRNL)\<rparr>)
           else add_char_then p (the c) IN_FIELD)
      | EAT_CRNL \<Rightarrow>
          (if is_crnl c then Inr p
           else if c = None then Inr (p\<lparr>state := START_RECORD\<rparr>)
           else Inl CsvError))"

fun feed_chars :: "csv_parser \<Rightarrow> string \<Rightarrow> py_error + csv_parser" where
  "feed_chars p [] = Inr p"
| "feed_chars p (c # cs) =
     (case parse_process_char p (Some c) of
        Inl e \<Rightarrow> Inl e
      | Inr p' \<Rightarrow> feed_chars p' cs)"

definition feed_line :: "csv_parser \<Rightarrow> string \<Rightarrow> py_error + csv_parser" where
  "feed_line p l =
     (case feed_chars p l of
        Inl e \<Rightarrow> Inl e
      | Inr p' \<Rightarrow> parse_process_char p' None)"

fun csv_rows :: "csv_parser \<Rightarrow> string list \<Rightarrow> string list list \<times> py_error option" where
  "csv_rows p [] =
     (if field p \<noteq> [] \<or> state p = IN_QUOTED_FIELD
      then ([fields' (parse_save_field p)], None) else ([], None))"
| "csv_rows p (l # ls) =
     (case feed_line p l of
        Inl e \<Rightarrow> ([], Some e)
      | Inr p' \<Rightarrow>
          if state p' = START_RECORD
          then (case csv_rows parse_reset ls of (rows, e) \<Rightarrow> (fields' p' # rows, e))
          else csv_rows p' ls)"

definition csv_reader :: "string list \<Rightarrow> string list list \<times> py_error option" where
  \<comment> \<open>the rows the reader yields, and the error that ends the iteration, if any\<close>
  "csv_reader infile = csv_rows parse_reset infile"

section \<open>The chain remapper\<close>

definition is_atom_record :: "string \<Rightarrow> bool" where
  "is_atom_record l = (py_find l ''ATOM'' = 0 \<or> py_find l ''HETATM'' = 0)"

definition translate_record :: "string \<Rightarrow> string \<Rightarrow> string list \<Rightarrow> py_error + string option" where
  \<comment> \<open>the body of the \<^verbatim>\<open>for\<close> loop on one row \<open>line\<close>: the text written, if any\<close>
  "translate_record chain newChain line =
     (case line of
        [] \<Rightarrow> Inl IndexError
      | l0 # _ \<Rightarrow>
          if is_atom_record l0 then
            (let newLine = map (\<lambda>c. [c]) l0
             in if length newLine \<le> 21 then Inl IndexError
                else if newLine ! 21 = newChain then
                  (if length chain > 2 then
                     (let newLine1 = newLine @ map (\<lambda>c. [c]) chain;
                          newLine2 = newLine1[21 := ''%'']
                      in Inr (Some (concat newLine2 @ NL)))
                   else if length chain > 1 then
                     (let newLine1 = newLine[20 := [chain ! 0]];
                          newLine2 = newLine1[21 := [chain ! 1]]
                      in Inr (Some (concat newLine2 @ NL)))
                   else
                     (let newLine1 = newLine[21 := chain]
                      in Inr (Some (concat newLine1 @ NL))))
                else Inr None)
          else Inr (Some (l0 @ NL)))"

fun translate_records ::
  "string \<Rightarrow> string \<Rightarrow> string list list \<Rightarrow> string list \<Rightarrow> string list \<times> py_error option" where
  "translate_records chain newChain [] out = (out, None)"
| "translate_records chain newChain (line # rest) out =
     (case translate_record chain newChain line of
        Inl e \<Rightarrow> (out, Some e)
      | Inr None \<Rightarrow> translate_records chain newChain rest out
      | Inr (Some s) \<Rightarrow> translate_records chain newChain rest (out @ [s]))"

definition parsePdbAndTranslateChain ::
  "string \<Rightarrow> string \<Rightarrow> string list \<Rightarrow> string list \<times> py_error option" where
  \<comment> \<open>the texts written to the output file, in order, and the exception raised, if any\<close>
  "parsePdbAndTranslateChain chain newChain infile =
     (case csv_reader infile of
        (rows, e) \<Rightarrow>
          (case translate_records chain newChain rows [] of
             (out, Some err) \<Rightarrow> (out, Some err)
           | (out, None) \<Rightarrow> (out, e)))"

section \<open>Vocabulary of the specification\<close>

text \<open>
  The words the specification uses for atom records: a line starts with a keyword; the
  columns of a line counted from 1; and the text an atom record of the extracted chain is
  rewritten to, by the length of the requested chain code.
\<close>

definition starts_with :: "string \<Rightarrow> string \<Rightarrow> bool" where
  "starts_with p l = (take (length p) l = p)"

definition recode :: "string \<Rightarrow> string \<Rightarrow> string" where
  "recode chain l =
     (if 3 \<le> length chain then l[21 := CHR ''%''] @ chain
      else if length chain = 2 then l[20 := chain ! 0, 21 := chain ! 1]
      else if length chain = 1 then l[21 := chain ! 0]
      else take 21 l @ drop 22 l)"

definition column :: "nat \<Rightarrow> string \<Rightarrow> char" where
  "column n l = l ! (n - 1)"

definition set_column :: "nat \<Rightarrow> char \<Rightarrow> string \<Rightarrow> string" where
  "set_column n c l = l[n - 1 := c]"

definition sample_atom :: string where
  "sample_atom = ''ATOM      1  N   MET A   1''"







text \<open>
  The words the specification uses for the mapping file: a header line is a line that
  contains \<^verbatim>\<open>pdb-bundle\<close>; the member file it names is the line, without the white
  space around it, less its final character; requesting a chain is looking it up in both
  tables.
\<close>

fun contains :: "string \<Rightarrow> string \<Rightarrow> bool" where
  "contains sub [] = (sub = [])"
| "contains sub (c # cs) = (take (length sub) (c # cs) = sub \<or> contains sub cs)"

definition is_header :: "string \<Rightarrow> bool" where
  "is_header l = contains ''pdb-bundle'' l"

definition member_name :: "string \<Rightarrow> string" where
  "member_name h = butlast (py_strip h)"

definition request ::
  "string list \<Rightarrow> string \<Rightarrow> py_error + (string option \<times> string option)" where
  "request fp chain =
     (case parsePdbBundleChainIdFile fp of
        Inl e \<Rightarrow> Inl e
      | Inr (tabFile, tabChain) \<Rightarrow> Inr (tabFile chain, tabChain chain))"

definition sample_mapping :: "string list" where
  "sample_mapping = [''1abc-pdb-bundle1.pdb:'', ''A B'']"

text \<open>
  The block structure of a mapping file: a block is a header line with the lines that
  follow it up to the next header; it lists, for each of its lines of two tokens, the
  requested code (second token) with the member file of the header and the legacy code
  (first token). \<open>files_of\<close> and \<open>chains_of\<close> are the tables a listing stands for when a
  later entry replaces an earlier one with the same requested code.
\<close>

type_synonym block = "string \<times> string list"

definition block_lines :: "block \<Rightarrow> string list" where
  "block_lines b = fst b # snd b"

definition valid_block :: "block \<Rightarrow> bool" where
  "valid_block b =
     (is_header (fst b)
      \<and> (\<forall>l \<in> set (snd b). \<not> is_header l \<and> (py_split l = [] \<or> length (py_split l) = 2)))"

definition body_entries :: "string \<Rightarrow> string list \<Rightarrow> (string \<times> string \<times> string) list" where
  "body_entries member body =
     concat (map (\<lambda>l. case py_split l of
                          [legacy, requested] \<Rightarrow> [(requested, member, legacy)]
                        | _ \<Rightarrow> []) body)"

definition listing :: "block list \<Rightarrow> (string \<times> string \<times> string) list" where
  "listing blocks = concat (map (\<lambda>b. body_entries (member_name (fst b)) (snd b)) blocks)"

definition consistent :: "(string \<times> string \<times> string) list \<Rightarrow> bool" where
  "consistent L = (\<forall>e \<in> set L. \<forall>e' \<in> set L. fst e = fst e' \<longrightarrow> snd e = snd e')"

definition files_of :: "(string \<times> string \<times> string) list \<Rightarrow> (string \<rightharpoonup> string)" where
  "files_of L = map_of (rev (map (\<lambda>e. (fst e, fst (snd e))) L))"

definition chains_of :: "(string \<times> string \<times> string) list \<Rightarrow> (string \<rightharpoonup> string)" where
  "chains_of L = map_of (rev (map (\<lambda>e. (fst e, snd (snd e))) L))"

definition sample_preamble :: "string list" where
  "sample_preamble = [''    New chain ID            Original chain ID'', []]"

definition sample_blocks :: "block list" where
  "sample_blocks =
     [(''1abc-pdb-bundle1.pdb:'', [''   A     AA'', [], ''   B     AB'']),
      (''1abc-pdb-bundle2.pdb:'', [''   A     BA''])]"


section \<open>Properties of the chain remapper\<close>

lemma find_from_range: "find_from sub i s = - 1 \<or> int i \<le> find_from sub i s"
  by (induction s arbitrary: i) (auto, force)

lemma py_find_zero: "(py_find s sub = 0) = starts_with sub s"
proof (cases s)
  case Nil
  then show ?thesis by (auto simp: py_find_def starts_with_def)
next
  case (Cons c cs)
  have "find_from sub (Suc 0) cs \<noteq> 0"
    using find_from_range [of sub "Suc 0" cs] by auto
  with Cons show ?thesis by (auto simp: py_find_def starts_with_def)
qed

lemma is_atom_record_iff:
  "is_atom_record l = (starts_with ''ATOM'' l \<or> starts_with ''HETATM'' l)"
  by (simp add: is_atom_record_def py_find_zero)

lemma concat_singletons: "concat (map (\<lambda>c. [c]) l) = l"
  by (induction l) auto

lemma concat_singletons_update:
  "concat ((map (\<lambda>c. [c]) l)[i := [x]]) = l[i := x]"
proof (induction l arbitrary: i)
  case Nil
  show ?case by simp
next
  case (Cons a l)
  show ?case by (cases i) (simp_all add: Cons.IH)
qed

lemma concat_update_empty:
  "i < length l \<Longrightarrow> concat ((map (\<lambda>c. [c]) l)[i := []]) = take i l @ drop (Suc i) l"
proof (induction l arbitrary: i)
  case Nil
  then show ?case by simp
next
  case (Cons a l)
  then show ?case by (cases i) (simp_all add: concat_singletons)
qed


lemma translate_record_other:
  "is_atom_record l \<Longrightarrow> 21 < length l \<Longrightarrow> [l ! 21] \<noteq> newChain \<Longrightarrow>
   translate_record chain newChain (l # fs) = Inr None"
  by (simp add: translate_record_def)

lemma translate_record_match:
  assumes "is_atom_record l" and "21 < length l" and "[l ! 21] = newChain"
  shows "translate_record chain newChain (l # fs) = Inr (Some (recode chain l @ NL))"
proof -
  have head: "map (\<lambda>c. [c]) l ! 21 = newChain"
    using assms by simp
  consider "3 \<le> length chain" | "length chain = 2" | "length chain = 1" | "length chain = 0"
    by arith
  then show ?thesis
  proof cases
    case 1
    then show ?thesis using assms head
      by (simp add: translate_record_def recode_def Let_def list_update_append1
          concat_singletons concat_singletons_update)
  next
    case 2
    have "(map (\<lambda>c. [c]) l)[20 := [chain ! 0]] = map (\<lambda>c. [c]) (l[20 := chain ! 0])"
      by (simp add: map_update)
    with 2 show ?thesis using assms head
      by (simp add: translate_record_def recode_def Let_def concat_singletons_update)
  next
    case 3
    then obtain c where c: "chain = [c]" by (cases chain) auto
    show ?thesis using assms head
      by (simp add: c translate_record_def recode_def Let_def concat_singletons_update)
  next
    case 4
    then show ?thesis using assms head
      by (simp add: translate_record_def recode_def Let_def concat_update_empty)
  qed
qed



subsection \<open>Rows of the csv reader\<close>




lemma parse_add_char_Inr:
  "parse_add_char p c = Inr p' \<Longrightarrow> p' = p\<lparr>field := field p @ [c]\<rparr>"
  by (auto simp: parse_add_char_def split: if_splits)

lemma add_char_then_Inr:
  "add_char_then p c s = Inr p' \<Longrightarrow> p' = p\<lparr>field := field p @ [c], state := s\<rparr>"
  by (auto simp: add_char_then_def split: sum.splits dest: parse_add_char_Inr)

lemma start_field_fields:
  "start_field p c = Inr p' \<Longrightarrow> \<exists>m. fields' p' = fields' p @ m"
  by (auto simp: start_field_def parse_save_field_def split: if_splits dest: add_char_then_Inr)















lemma csv_rows_Nil: "csv_rows parse_reset [] = ([], None)"
  by (simp add: parse_reset_def)




subsection \<open>The loop over the rows\<close>









subsection \<open>The function on a file\<close>

lemmas csv_eval = parsePdbAndTranslateChain_def csv_reader_def feed_line_def
  parse_process_char_def start_field_def add_char_then_def parse_add_char_def field_limit_def
  parse_save_field_def parse_reset_def is_crnl_def translate_record_def is_atom_record_def
  py_find_def












text \<open>
  C6: an atom record too short to have a chain column does not always raise. After a
  line in which a field opens with a double quote the csv reader takes the following
  lines into that field: the short record is never seen by the loop, no exception is
  raised, and the function ends normally.
\<close>

theorem short_record_swallowed:
  "parsePdbAndTranslateChain ''B'' ''A''
       [''REMARK   1 SEE NOTE,'' @ [CHR 0x22] @ NL, ''ATOM      2  CA'' @ NL, ''END'' @ NL]
     = ([''REMARK   1 SEE NOTE'' @ NL], None)"
  by (simp add: csv_eval)

text \<open>
  C5: a line that is not an atom record is not always copied unchanged. The csv reader
  splits a line at its commas and only the first field is written; a blank line gives an
  empty row, and reading its first field raises IndexError.
\<close>

theorem comma_and_blank_lines_not_copied:
  "parsePdbAndTranslateChain ''B'' ''A'' [''TITLE     LYSOZYME, MUTANT'' @ NL]
     = ([''TITLE     LYSOZYME'' @ NL], None)
   \<and> parsePdbAndTranslateChain ''B'' ''A'' [''HEADER    X'' @ NL, NL, ''END'' @ NL]
     = ([''HEADER    X'' @ NL], Some IndexError)"
  by (simp add: csv_eval)

text \<open>
  C3, as stated, fails. On a record of the standard layout, with chain A in column 22,
  column 21 holds a space and not the legacy code A, yet the record is kept; a requested
  code B lands in column 22 and column 21 keeps its space; the first character of the
  requested code XY lands in column 21 and column 20 keeps the T of the residue name.
\<close>

theorem chain_column_21_counterexample:
  "column 21 sample_atom = CHR '' ''
   \<and> translate_record ''B'' ''A'' [sample_atom] = Inr (Some (''ATOM      1  N   MET B   1'' @ NL))
   \<and> column 21 ''ATOM      1  N   MET B   1'' = CHR '' ''
   \<and> translate_record ''XY'' ''A'' [sample_atom] = Inr (Some (''ATOM      1  N   METXY   1'' @ NL))
   \<and> column 20 ''ATOM      1  N   METXY   1'' = CHR ''T''"
  by code_simp

text \<open>
  C3, amended: counting columns from 1, the character that decides whether an atom
  record is kept, and the one rewritten for a requested code of one character, is the
  character at column 22 (index 21); the first character of a requested code of two
  characters goes to column 21 (index 20) and the second to column 22.
\<close>

theorem chain_column_is_22:
  assumes "starts_with ''ATOM'' l \<or> starts_with ''HETATM'' l" and "21 < length l"
  shows "((translate_record chain newChain (l # fs) = Inr None) = ([column 22 l] \<noteq> newChain))
    \<and> ([column 22 l] = newChain \<longrightarrow>
          translate_record [c] newChain (l # fs) = Inr (Some (set_column 22 c l @ NL))
        \<and> translate_record [a, b] newChain (l # fs)
            = Inr (Some (set_column 22 b (set_column 21 a l) @ NL)))"
proof -
  have atom: "is_atom_record l" using assms(1) by (simp add: is_atom_record_iff)
  have col: "column 22 l = l ! 21" by (simp add: column_def)
  show ?thesis
  proof (cases "[l ! 21] = newChain")
    case True
    have "translate_record chain newChain (l # fs) = Inr (Some (recode chain l @ NL))"
      and "translate_record [c] newChain (l # fs) = Inr (Some (recode [c] l @ NL))"
      and "translate_record [a, b] newChain (l # fs) = Inr (Some (recode [a, b] l @ NL))"
      using atom assms(2) True by (simp_all add: translate_record_match)
    then show ?thesis using True
      by (simp add: col recode_def set_column_def)
  next
    case False
    then show ?thesis using atom assms(2)
      by (simp add: col translate_record_other)
  qed
qed

theorem chain_column_is_22_witness:
  "(starts_with ''ATOM'' sample_atom \<or> starts_with ''HETATM'' sample_atom)
   \<and> 21 < length sample_atom
   \<and> [column 22 sample_atom] = ''A''
   \<and> translate_record ''B'' ''A'' [sample_atom] \<noteq> Inr None
   \<and> translate_record ''B'' ''A'' [sample_atom]
       = Inr (Some (set_column 22 (CHR ''B'') sample_atom @ NL))
   \<and> translate_record ''XY'' ''A'' [sample_atom]
       = Inr (Some (set_column 22 (CHR ''Y'') (set_column 21 (CHR ''X'') sample_atom) @ NL))"
proof -
  have h1: "starts_with ''ATOM'' sample_atom \<or> starts_with ''HETATM'' sample_atom"
    by (simp add: starts_with_def sample_atom_def)
  have h2: "21 < length sample_atom" by (simp add: sample_atom_def)
  have h3: "[column 22 sample_atom] = ''A''" by (simp add: sample_atom_def column_def)
  show ?thesis
    using chain_column_is_22 [OF h1 h2, of "''B''" "''A''" "[]" "CHR ''B''" "CHR ''X''" "CHR ''Y''"]
      h1 h2 h3 by simp
qed

section \<open>Properties of the reader of the mapping file\<close>

subsection \<open>strip, split and find\<close>

lemma isspace_NL: "isspace (CHR 0x0A)"
  by (simp add: isspace_def)

lemma py_rstrip_snoc_space: "isspace w \<Longrightarrow> py_rstrip (xs @ [w]) = py_rstrip xs"
  by (simp add: py_rstrip_def)

lemma py_rstrip_snoc_other: "\<not> isspace w \<Longrightarrow> py_rstrip (xs @ [w]) = xs @ [w]"
  by (simp add: py_rstrip_def)

lemma py_rstrip_fixed: "r = [] \<or> \<not> isspace (last r) \<Longrightarrow> py_rstrip r = r"
  by (cases r rule: rev_cases) (auto simp: py_rstrip_def)

lemma py_rstrip_last: "py_rstrip s = [] \<or> \<not> isspace (last (py_rstrip s))"
proof (induction s rule: rev_induct)
  case Nil
  show ?case by (simp add: py_rstrip_def)
next
  case (snoc w xs)
  then show ?case
    by (cases "isspace w") (simp_all add: py_rstrip_snoc_space py_rstrip_snoc_other)
qed

lemma last_dropWhile: "dropWhile P r \<noteq> [] \<Longrightarrow> last (dropWhile P r) = last r"
  by (induction r) (auto split: if_splits)

lemma py_rstrip_strip: "py_rstrip (py_strip s) = py_strip s"
proof -
  have "py_strip s = [] \<or> \<not> isspace (last (py_strip s))"
  proof (cases "py_strip s = []")
    case True
    then show ?thesis by simp
  next
    case False
    then have ne: "dropWhile isspace (py_rstrip s) \<noteq> []"
      by (simp add: py_strip_def py_lstrip_def)
    then have "py_rstrip s \<noteq> []" by auto
    then have "\<not> isspace (last (py_rstrip s))" using py_rstrip_last [of s] by simp
    then show ?thesis
      using last_dropWhile [OF ne] by (simp add: py_strip_def py_lstrip_def)
  qed
  then show ?thesis by (rule py_rstrip_fixed)
qed

lemma py_strip_NL: "py_strip (l @ NL) = py_strip l"
  by (simp add: py_strip_def py_rstrip_snoc_space isspace_NL)

lemma find_from_contains: "(0 \<le> find_from sub i s) = contains sub s"
  by (induction s arbitrary: i) auto

lemma py_find_contains: "(0 \<le> py_find s sub) = contains sub s"
  by (simp add: py_find_def find_from_contains)

lemma take_eq_length:
  assumes "take (length sub) xs = sub"
  shows "length sub \<le> length xs"
proof -
  have "length (take (length sub) xs) = length sub" by (simp only: assms)
  then show ?thesis by simp
qed

lemma contains_length: "contains sub s \<Longrightarrow> length sub \<le> length s"
proof (induction s)
  case Nil
  then show ?case by simp
next
  case (Cons a s)
  then show ?case using take_eq_length [of sub "a # s"] by auto
qed

lemma contains_lstrip:
  "sub \<noteq> [] \<Longrightarrow> \<not> isspace (hd sub) \<Longrightarrow> contains sub (dropWhile isspace l) = contains sub l"
proof (induction l)
  case Nil
  show ?case by simp
next
  case (Cons c cs)
  show ?case
  proof (cases "isspace c")
    case True
    have "take (length sub) (c # cs) \<noteq> sub"
    proof
      assume eq: "take (length sub) (c # cs) = sub"
      from Cons.prems(1) obtain n where "length sub = Suc n" by (cases sub) auto
      with eq have "hd sub = c" by (metis list.sel(1) take_Suc_Cons)
      with True Cons.prems(2) show False by simp
    qed
    with True Cons show ?thesis by simp
  next
    case False
    then show ?thesis by simp
  qed
qed

lemma take_snoc_space:
  assumes "sub \<noteq> []" and "\<not> isspace (last sub)" and "isspace w"
  shows "(take (length sub) (ys @ [w]) = sub) = (take (length sub) ys = sub)"
proof (cases "length sub \<le> length ys")
  case True
  then show ?thesis by simp
next
  case False
  then have long: "length ys < length sub" by simp
  have "ys @ [w] \<noteq> sub" using assms by auto
  moreover have "take (length sub) ys \<noteq> sub"
    using long take_eq_length [of sub ys] by auto
  ultimately show ?thesis using long by simp
qed

lemma contains_snoc_space:
  assumes "sub \<noteq> []" and "\<not> isspace (last sub)" and "isspace w"
  shows "contains sub (xs @ [w]) = contains sub xs"
proof (induction xs)
  case Nil
  have "take (length sub) [w] \<noteq> sub"
  proof
    assume eq: "take (length sub) [w] = sub"
    then have "length sub \<le> 1" using take_eq_length [of sub "[w]"] by simp
    with assms(1) have "length sub = 1" by (cases sub) auto
    with eq have "sub = [w]" by simp
    with assms(2,3) show False by simp
  qed
  then show ?case using assms(1) by simp
next
  case (Cons x xs)
  have "(take (length sub) ((x # xs) @ [w]) = sub) = (take (length sub) (x # xs) = sub)"
    using assms by (rule take_snoc_space)
  then show ?case using Cons by simp
qed

lemma contains_rstrip:
  assumes "sub \<noteq> []" and "\<not> isspace (last sub)"
  shows "contains sub (py_rstrip l) = contains sub l"
proof (induction l rule: rev_induct)
  case Nil
  show ?case by (simp add: py_rstrip_def)
next
  case (snoc w xs)
  then show ?case using assms
    by (cases "isspace w") (simp_all add: py_rstrip_snoc_space py_rstrip_snoc_other contains_snoc_space)
qed

lemma is_header_strip: "is_header (py_strip l) = is_header l"
proof -
  have a: "''pdb-bundle'' \<noteq> []" and b: "\<not> isspace (hd ''pdb-bundle'')"
    and c: "\<not> isspace (last ''pdb-bundle'')"
    by (simp_all add: isspace_def)
  show ?thesis
    unfolding is_header_def py_strip_def py_lstrip_def
    by (simp only: contains_lstrip [OF a b] contains_rstrip [OF a c])
qed

lemma split_acc_lstrip: "split_acc [] (dropWhile isspace l) = split_acc [] l"
  by (induction l) auto

lemma split_acc_snoc_space: "isspace w \<Longrightarrow> split_acc cur (xs @ [w]) = split_acc cur xs"
  by (induction xs arbitrary: cur) auto

lemma py_split_rstrip: "py_split (py_rstrip l) = py_split l"
proof (induction l rule: rev_induct)
  case Nil
  show ?case by (simp add: py_rstrip_def)
next
  case (snoc w xs)
  then show ?case
    by (cases "isspace w")
      (simp_all add: py_rstrip_snoc_space py_rstrip_snoc_other py_split_def split_acc_snoc_space)
qed

lemma py_split_strip: "py_split (py_strip l) = py_split l"
  using py_split_rstrip [of l]
  by (simp add: py_strip_def py_lstrip_def py_split_def split_acc_lstrip)

lemma split_acc_Nil_iff: "(split_acc cur s = []) = (cur = [] \<and> (\<forall>c \<in> set s. isspace c))"
  by (induction s arbitrary: cur) auto

lemma py_strip_Nil_iff: "(py_strip l = []) = (py_split l = [])"
proof
  assume "py_strip l = []"
  then have "py_split (py_strip l) = []" by (simp add: py_split_def)
  then show "py_split l = []" by (simp add: py_split_strip)
next
  assume "py_split l = []"
  then have "\<forall>c \<in> set l. isspace c" by (simp add: py_split_def split_acc_Nil_iff)
  then have "py_rstrip l = []" by (simp add: py_rstrip_def)
  then show "py_strip l = []" by (simp add: py_strip_def py_lstrip_def)
qed

lemma split_acc_tokens:
  "cur = [] \<or> (\<forall>c \<in> set cur. \<not> isspace c) \<Longrightarrow> t \<in> set (split_acc cur s) \<Longrightarrow>
   t \<noteq> [] \<and> (\<forall>c \<in> set t. \<not> isspace c)"
proof (induction s arbitrary: cur)
  case Nil
  then show ?case by (auto split: if_splits)
next
  case (Cons a s)
  show ?case
  proof (cases "isspace a")
    case True
    with Cons.prems have "t = cur \<and> cur \<noteq> [] \<or> t \<in> set (split_acc [] s)"
      by (auto split: if_splits)
    then show ?thesis using Cons.prems(1) Cons.IH [of "[]"] by auto
  next
    case False
    with Cons.prems have "t \<in> set (split_acc (cur @ [a]) s)" by simp
    moreover have "cur @ [a] = [] \<or> (\<forall>c \<in> set (cur @ [a]). \<not> isspace c)"
      using False Cons.prems(1) by auto
    ultimately show ?thesis by (rule Cons.IH [rotated])
  qed
qed

lemma py_strip_token:
  assumes "t \<in> set (py_split s)"
  shows "py_strip t = t"
proof -
  have t: "t \<noteq> []" "\<forall>c \<in> set t. \<not> isspace c"
    using split_acc_tokens [of "[]" t s] assms by (auto simp: py_split_def)
  then have "py_rstrip t = t" by (intro py_rstrip_fixed) simp
  moreover have "dropWhile isspace t = t" using t by (cases t) auto
  ultimately show ?thesis by (simp add: py_strip_def py_lstrip_def)
qed

subsection \<open>One round of the loop\<close>

lemma line_of_raw: "py_rstrip (py_strip (l @ NL)) = py_strip l"
  by (simp only: py_strip_NL py_rstrip_strip)

lemma header_test: "(0 \<le> py_find (py_strip l) ''pdb-bundle'') = is_header l"
  by (simp only: py_find_contains is_header_def [symmetric] is_header_strip)

lemma member_name_nonempty:
  assumes "is_header l"
  shows "member_name l \<noteq> []"
proof -
  have "contains ''pdb-bundle'' (py_strip l)"
    using assms by (simp only: is_header_strip is_header_def [symmetric])
  then have "length ''pdb-bundle'' \<le> length (py_strip l)" by (rule contains_length)
  then have "2 \<le> length (py_strip l)" by simp
  then show ?thesis
    by (cases "py_strip l" rule: rev_cases) (auto simp: member_name_def)
qed

lemma parse_step_header:
  "is_header l \<Longrightarrow>
   parse_step st (l @ NL) =
     Inr (st\<lparr>cnt := cnt st + 1, actualFile := member_name l,
              files := files st @ [member_name l]\<rparr>)"
  unfolding parse_step_def line_of_raw Let_def
  by (simp add: header_test member_name_def)

lemma parse_step_skip:
  "\<not> is_header l \<Longrightarrow> actualFile st = [] \<or> py_split l = [] \<Longrightarrow>
   parse_step st (l @ NL) = Inr (st\<lparr>cnt := cnt st + 1\<rparr>)"
  unfolding parse_step_def line_of_raw Let_def
  by (auto simp: header_test py_strip_Nil_iff)

lemma parse_step_one_token:
  "\<not> is_header l \<Longrightarrow> actualFile st \<noteq> [] \<Longrightarrow> py_split l = [t] \<Longrightarrow>
   parse_step st (l @ NL) = Inl IndexError"
  unfolding parse_step_def line_of_raw Let_def
  by (simp add: header_test py_strip_Nil_iff py_split_strip)

lemma parse_step_data:
  assumes "\<not> is_header l" and "actualFile st \<noteq> []" and "py_split l = leg # req # others"
  shows "parse_step st (l @ NL) =
     Inr (st\<lparr>cnt := cnt st + 1, mapChain := (mapChain st)(req \<mapsto> leg),
              mapFile := (mapFile st)(req \<mapsto> actualFile st)\<rparr>)"
proof -
  have "py_strip leg = leg" "py_strip req = req"
    using assms(3) by (simp_all add: py_strip_token [of _ l])
  then show ?thesis
    using assms unfolding parse_step_def line_of_raw Let_def
    by (simp add: header_test py_strip_Nil_iff py_split_strip)
qed

lemma parse_loop_append:
  "parse_loop st (xs @ ys) =
     (case parse_loop st xs of Inl e \<Rightarrow> Inl e | Inr st' \<Rightarrow> parse_loop st' ys)"
  by (induction xs arbitrary: st) (auto split: sum.splits)

lemma parse_step_error: "parse_step st raw = Inl e \<Longrightarrow> e = IndexError"
  by (auto simp: parse_step_def Let_def split: if_splits)

lemma parse_loop_error: "parse_loop st ls = Inl e \<Longrightarrow> e = IndexError"
  by (induction ls arbitrary: st) (auto split: sum.splits dest: parse_step_error)

lemma parse_step_keeps_file:
  assumes "parse_step st (l @ NL) = Inr st'" and "actualFile st \<noteq> []"
  shows "actualFile st' \<noteq> []"
proof (cases "is_header l")
  case True
  then show ?thesis using assms(1) by (auto simp: parse_step_header member_name_nonempty)
next
  case False
  then have "\<not> 0 \<le> py_find (py_strip l) ''pdb-bundle''" by (simp add: header_test)
  then show ?thesis
    using assms unfolding parse_step_def line_of_raw Let_def
    by (auto split: if_splits)
qed

lemma parse_loop_keeps_file:
  "parse_loop st ls = Inr st' \<Longrightarrow> actualFile st \<noteq> [] \<Longrightarrow> actualFile st' \<noteq> []"
proof (induction ls arbitrary: st)
  case Nil
  then show ?case by simp
next
  case (Cons l ls)
  then obtain st1 where s: "parse_step st (l @ NL) = Inr st1" and r: "parse_loop st1 ls = Inr st'"
    by (auto split: sum.splits)
  from s Cons.prems(2) have "actualFile st1 \<noteq> []" by (rule parse_step_keeps_file)
  with r show ?case by (rule Cons.IH)
qed

lemma parse_step_same_keys:
  "parse_step st raw = Inr st' \<Longrightarrow> dom (mapFile st) = dom (mapChain st) \<Longrightarrow>
   dom (mapFile st') = dom (mapChain st')"
  by (clarsimp simp: parse_step_def Let_def split: if_splits)

lemma parse_loop_same_keys:
  "parse_loop st ls = Inr st' \<Longrightarrow> dom (mapFile st) = dom (mapChain st) \<Longrightarrow>
   dom (mapFile st') = dom (mapChain st')"
proof (induction ls arbitrary: st)
  case Nil
  then show ?case by simp
next
  case (Cons l ls)
  then obtain st1 where s: "parse_step st (l @ NL) = Inr st1" and r: "parse_loop st1 ls = Inr st'"
    by (auto split: sum.splits)
  from s Cons.prems(2) have "dom (mapFile st1) = dom (mapChain st1)"
    by (rule parse_step_same_keys)
  with r show ?case by (rule Cons.IH)
qed

lemma tables_same_keys:
  assumes "parsePdbBundleChainIdFile fp = Inr (tabFile, tabChain)"
  shows "dom tabFile = dom tabChain"
proof -
  from assms obtain st where st: "parse_loop parse_init fp = Inr st"
    and t: "tabFile = mapFile st" "tabChain = mapChain st"
    by (auto simp: parsePdbBundleChainIdFile_def split: sum.splits)
  have "dom (mapFile parse_init) = dom (mapChain parse_init)" by (simp add: parse_init_def)
  with st show ?thesis unfolding t by (rule parse_loop_same_keys)
qed

text \<open>
  C10: a mapping file in which a header line is followed, at any distance, by a line of
  exactly one token that is not a header makes the reader raise IndexError (at the
  second token of that line, or at an earlier line of the same kind): no tables are
  returned.
\<close>

theorem one_token_line_raises:
  assumes "is_header h" and "\<not> is_header l" and "py_split l = [t]"
  shows "parsePdbBundleChainIdFile (before @ [h] @ between @ [l] @ rest) = Inl IndexError"
proof -
  have "parse_loop parse_init (before @ [h] @ between @ [l] @ rest) = Inl IndexError"
  proof (cases "parse_loop parse_init before")
    case (Inl e)
    then show ?thesis using parse_loop_error [OF Inl] by (simp add: parse_loop_append)
  next
    case (Inr s1)
    define s2 where "s2 = s1\<lparr>cnt := cnt s1 + 1, actualFile := member_name h,
              files := files s1 @ [member_name h]\<rparr>"
    have h: "parse_step s1 (h @ NL) = Inr s2"
      using assms(1) by (simp add: parse_step_header s2_def)
    have f2: "actualFile s2 \<noteq> []"
      using assms(1) by (simp add: s2_def member_name_nonempty)
    show ?thesis
    proof (cases "parse_loop s2 between")
      case (Inl e)
      then show ?thesis using parse_loop_error [OF Inl] Inr h by (simp add: parse_loop_append)
    next
      case s3: (Inr s3)
      from s3 f2 have "actualFile s3 \<noteq> []" by (rule parse_loop_keeps_file)
      then have "parse_step s3 (l @ NL) = Inl IndexError"
        using assms(2,3) by (simp add: parse_step_one_token)
      then show ?thesis using Inr h s3 by (simp add: parse_loop_append)
    qed
  qed
  then show ?thesis by (simp add: parsePdbBundleChainIdFile_def)
qed

theorem one_token_line_raises_witness:
  "is_header ''1abc-pdb-bundle1.pdb:'' \<and> \<not> is_header ''C'' \<and> py_split ''C'' = [''C'']
   \<and> parsePdbBundleChainIdFile ([] @ [''1abc-pdb-bundle1.pdb:''] @ [''A B''] @ [''C''] @ [])
       = Inl IndexError"
proof -
  have h1: "is_header ''1abc-pdb-bundle1.pdb:''" by code_simp
  have h2: "\<not> is_header ''C''" by code_simp
  have h3: "py_split ''C'' = [''C'']" by code_simp
  show ?thesis
    using one_token_line_raises [OF h1 h2 h3, of "[]" "[''A B'']" "[]"] h1 h2 h3 by blast
qed

text \<open>
  C8, as stated, fails: the line \<^verbatim>\<open>1abc.pdb1\<close> does not contain \<^verbatim>\<open>pdb-bundle\<close>, so it is
  no header, the data line after it is skipped, and the requested chain B is in neither
  table.
\<close>

theorem header_without_pdb_bundle_counterexample:
  "request [''1abc.pdb1'', ''A B''] ''B'' = Inr (None, None)"
  by code_simp

text \<open>
  C8, amended: with the header line \<^verbatim>\<open>1abc-pdb-bundle1.pdb:\<close>, which contains
  \<^verbatim>\<open>pdb-bundle\<close> and loses its final character, followed by the data line \<^verbatim>\<open>A B\<close>, the
  requested chain B maps to the member file \<^verbatim>\<open>1abc-pdb-bundle1.pdb\<close> and to the legacy
  code A.
\<close>

theorem bundle_header_scenario:
  "request [''1abc-pdb-bundle1.pdb:'', ''A B''] ''B'' = Inr (Some ''1abc-pdb-bundle1.pdb'', Some ''A'')"
  by code_simp

text \<open>
  C7: when the reader of the mapping file returns tables and the requested chain is
  absent from them, the fallback of download raises TypeError (the concatenation of the
  directory with the missing member-file name) and goes no further.
\<close>

theorem absent_chain_raises:
  assumes "parsePdbBundleChainIdFile mapping_txt = Inr (tabFile, tabChain)"
    and "tabFile chain = None \<or> tabChain chain = None"
  shows "download_bundle dir pdbcode chain mapping_txt = Inl TypeError"
proof -
  have "dom tabFile = dom tabChain" using assms(1) by (rule tables_same_keys)
  then have "(tabFile chain = None) = (tabChain chain = None)" by (metis domIff)
  with assms(2) have "tabFile chain = None" by blast
  with assms(1) show ?thesis by (simp add: download_bundle_def)
qed

lemma sample_mapping_tables:
  "parsePdbBundleChainIdFile sample_mapping
     = Inr ([''B'' \<mapsto> ''1abc-pdb-bundle1.pdb''], [''B'' \<mapsto> ''A''])"
proof -
  have h: "is_header ''1abc-pdb-bundle1.pdb:''" by code_simp
  have m: "member_name ''1abc-pdb-bundle1.pdb:'' = ''1abc-pdb-bundle1.pdb''" by code_simp
  have d: "\<not> is_header ''A B''" by code_simp
  have s: "py_split ''A B'' = ''A'' # ''B'' # []" by code_simp
  define st1 where "st1 = parse_init\<lparr>cnt := cnt parse_init + 1,
      actualFile := ''1abc-pdb-bundle1.pdb'', files := files parse_init @ [''1abc-pdb-bundle1.pdb'']\<rparr>"
  have s1: "parse_step parse_init (''1abc-pdb-bundle1.pdb:'' @ NL) = Inr st1"
    using parse_step_header [OF h, of parse_init] by (simp only: m st1_def)
  have f: "actualFile st1 \<noteq> []" by (simp add: st1_def)
  have s2: "parse_step st1 (''A B'' @ NL) =
     Inr (st1\<lparr>cnt := cnt st1 + 1, mapChain := (mapChain st1)(''B'' \<mapsto> ''A''),
              mapFile := (mapFile st1)(''B'' \<mapsto> actualFile st1)\<rparr>)"
    by (rule parse_step_data [OF d f s])
  have "parse_loop parse_init sample_mapping =
     Inr (st1\<lparr>cnt := cnt st1 + 1, mapChain := (mapChain st1)(''B'' \<mapsto> ''A''),
              mapFile := (mapFile st1)(''B'' \<mapsto> actualFile st1)\<rparr>)"
    by (simp only: sample_mapping_def parse_loop.simps s1 s2 sum.case)
  then show ?thesis
    by (simp add: parsePdbBundleChainIdFile_def st1_def parse_init_def)
qed

theorem absent_chain_raises_witness:
  "parsePdbBundleChainIdFile sample_mapping
     = Inr ([''B'' \<mapsto> ''1abc-pdb-bundle1.pdb''], [''B'' \<mapsto> ''A''])
   \<and> ([''B'' \<mapsto> ''1abc-pdb-bundle1.pdb''] ''Z'' = None \<or> [''B'' \<mapsto> ''A''] ''Z'' = None)
   \<and> download_bundle ''/tmp'' ''1abc'' ''Z'' sample_mapping = Inl TypeError"
proof -
  have h2: "[''B'' \<mapsto> ''1abc-pdb-bundle1.pdb''] ''Z'' = None \<or> [''B'' \<mapsto> ''A''] ''Z'' = None"
    by simp
  show ?thesis
    using absent_chain_raises [OF sample_mapping_tables h2, of "''/tmp''" "''1abc''"]
      sample_mapping_tables h2 by blast
qed

subsection \<open>The tables of a file of blocks\<close>

lemma files_of_append: "files_of (A @ B) = files_of A ++ files_of B"
  by (simp add: files_of_def map_of_append)

lemma chains_of_append: "chains_of (A @ B) = chains_of A ++ chains_of B"
  by (simp add: chains_of_def map_of_append)

lemma body_entries_Cons:
  "body_entries m (l # ls) =
     (case py_split l of [legacy, requested] \<Rightarrow> [(requested, m, legacy)] | _ \<Rightarrow> [])
     @ body_entries m ls"
  by (simp add: body_entries_def)

lemma parse_loop_body:
  assumes "actualFile st \<noteq> []"
    and "\<forall>l \<in> set body. \<not> is_header l \<and> (py_split l = [] \<or> length (py_split l) = 2)"
  shows "\<exists>st'. parse_loop st body = Inr st' \<and> actualFile st' = actualFile st
     \<and> mapFile st' = mapFile st ++ files_of (body_entries (actualFile st) body)
     \<and> mapChain st' = mapChain st ++ chains_of (body_entries (actualFile st) body)"
  using assms
proof (induction body arbitrary: st)
  case Nil
  show ?case by (simp add: body_entries_def files_of_def chains_of_def)
next
  case (Cons l ls)
  then have l: "\<not> is_header l" "py_split l = [] \<or> length (py_split l) = 2"
    and ls: "\<forall>l \<in> set ls. \<not> is_header l \<and> (py_split l = [] \<or> length (py_split l) = 2)"
    by auto
  from l(2) show ?case
  proof
    assume blank: "py_split l = []"
    define st1 where "st1 = st\<lparr>cnt := cnt st + 1\<rparr>"
    have step: "parse_step st (l @ NL) = Inr st1"
      using l(1) blank by (simp add: parse_step_skip st1_def)
    have "actualFile st1 \<noteq> []" using Cons.prems(1) by (simp add: st1_def)
    from Cons.IH [OF this ls] obtain st' where
      "parse_loop st1 ls = Inr st'" "actualFile st' = actualFile st1"
      "mapFile st' = mapFile st1 ++ files_of (body_entries (actualFile st1) ls)"
      "mapChain st' = mapChain st1 ++ chains_of (body_entries (actualFile st1) ls)"
      by blast
    then show ?thesis
      using step blank by (simp add: st1_def body_entries_Cons)
  next
    assume "length (py_split l) = 2"
    then obtain leg ts where "py_split l = leg # ts" and "length ts = 1"
      by (cases "py_split l") auto
    moreover from this obtain req where "ts = [req]"
      by (cases ts) auto
    ultimately have two: "py_split l = [leg, req]" by simp
    define st1 where "st1 = st\<lparr>cnt := cnt st + 1, mapChain := (mapChain st)(req \<mapsto> leg),
              mapFile := (mapFile st)(req \<mapsto> actualFile st)\<rparr>"
    have step: "parse_step st (l @ NL) = Inr st1"
      using l(1) Cons.prems(1) two by (simp add: parse_step_data st1_def)
    have "actualFile st1 \<noteq> []" using Cons.prems(1) by (simp add: st1_def)
    from Cons.IH [OF this ls] obtain st' where
      "parse_loop st1 ls = Inr st'" "actualFile st' = actualFile st1"
      "mapFile st' = mapFile st1 ++ files_of (body_entries (actualFile st1) ls)"
      "mapChain st' = mapChain st1 ++ chains_of (body_entries (actualFile st1) ls)"
      by blast
    then show ?thesis
      using step two
      by (simp add: st1_def body_entries_Cons files_of_append chains_of_append
          files_of_def chains_of_def)
  qed
qed

lemma parse_loop_blocks:
  assumes "\<forall>b \<in> set blocks. valid_block b"
  shows "\<exists>st'. parse_loop st (concat (map block_lines blocks)) = Inr st'
     \<and> mapFile st' = mapFile st ++ files_of (listing blocks)
     \<and> mapChain st' = mapChain st ++ chains_of (listing blocks)"
  using assms
proof (induction blocks arbitrary: st)
  case Nil
  show ?case by (simp add: listing_def files_of_def chains_of_def)
next
  case (Cons b bs)
  then have hd: "is_header (fst b)"
    and body: "\<forall>l \<in> set (snd b). \<not> is_header l \<and> (py_split l = [] \<or> length (py_split l) = 2)"
    and bs: "\<forall>b \<in> set bs. valid_block b"
    by (auto simp: valid_block_def)
  define st1 where "st1 = st\<lparr>cnt := cnt st + 1, actualFile := member_name (fst b),
      files := files st @ [member_name (fst b)]\<rparr>"
  have step: "parse_step st (fst b @ NL) = Inr st1"
    using hd by (simp add: parse_step_header st1_def)
  have f1: "actualFile st1 \<noteq> []"
    using hd by (simp add: st1_def member_name_nonempty)
  from parse_loop_body [OF f1 body] obtain st2 where st2:
    "parse_loop st1 (snd b) = Inr st2"
    "mapFile st2 = mapFile st1 ++ files_of (body_entries (actualFile st1) (snd b))"
    "mapChain st2 = mapChain st1 ++ chains_of (body_entries (actualFile st1) (snd b))"
    by blast
  from Cons.IH [OF bs, of st2] obtain st' where st':
    "parse_loop st2 (concat (map block_lines bs)) = Inr st'"
    "mapFile st' = mapFile st2 ++ files_of (listing bs)"
    "mapChain st' = mapChain st2 ++ chains_of (listing bs)"
    by blast
  have l: "listing (b # bs) = body_entries (member_name (fst b)) (snd b) @ listing bs"
    by (simp add: listing_def)
  have "parse_loop st (concat (map block_lines (b # bs))) = Inr st'"
    using step st2(1) st'(1) by (simp add: block_lines_def parse_loop_append)
  moreover have "mapFile st' = mapFile st ++ files_of (listing (b # bs))"
    unfolding l files_of_append st'(2) st2(2) by (simp add: st1_def)
  moreover have "mapChain st' = mapChain st ++ chains_of (listing (b # bs))"
    unfolding l chains_of_append st'(3) st2(3) by (simp add: st1_def)
  ultimately show ?case by blast
qed

lemma parse_loop_preamble:
  "actualFile st = [] \<Longrightarrow> \<forall>l \<in> set pre. \<not> is_header l \<Longrightarrow>
   \<exists>st'. parse_loop st pre = Inr st' \<and> actualFile st' = [] \<and> mapFile st' = mapFile st
     \<and> mapChain st' = mapChain st"
proof (induction pre arbitrary: st)
  case Nil
  then show ?case by simp
next
  case (Cons l ls)
  define st1 where "st1 = st\<lparr>cnt := cnt st + 1\<rparr>"
  have step: "parse_step st (l @ NL) = Inr st1"
    using Cons.prems by (simp add: parse_step_skip st1_def)
  have "actualFile st1 = []" using Cons.prems(1) by (simp add: st1_def)
  moreover have "\<forall>l \<in> set ls. \<not> is_header l" using Cons.prems(2) by simp
  ultimately obtain st' where "parse_loop st1 ls = Inr st'" "actualFile st' = []"
    "mapFile st' = mapFile st1" "mapChain st' = mapChain st1"
    using Cons.IH by blast
  then show ?case using step by (simp add: st1_def)
qed

lemma tables_of_mapping_file:
  assumes "\<forall>l \<in> set preamble. \<not> is_header l" and "\<forall>b \<in> set blocks. valid_block b"
  shows "parsePdbBundleChainIdFile (preamble @ concat (map block_lines blocks))
     = Inr (files_of (listing blocks), chains_of (listing blocks))"
proof -
  have "actualFile parse_init = []" by (simp add: parse_init_def)
  from parse_loop_preamble [OF this assms(1)] obtain st1 where st1:
    "parse_loop parse_init preamble = Inr st1" "mapFile st1 = mapFile parse_init"
    "mapChain st1 = mapChain parse_init"
    by blast
  from parse_loop_blocks [OF assms(2), of st1] obtain st' where st':
    "parse_loop st1 (concat (map block_lines blocks)) = Inr st'"
    "mapFile st' = mapFile st1 ++ files_of (listing blocks)"
    "mapChain st' = mapChain st1 ++ chains_of (listing blocks)"
    by blast
  have "parse_loop parse_init (preamble @ concat (map block_lines blocks)) = Inr st'"
    using st1(1) st'(1) by (simp add: parse_loop_append)
  then show ?thesis
    using st1 st' by (simp add: parsePdbBundleChainIdFile_def parse_init_def)
qed

lemma map_of_functional:
  assumes "(k, v) \<in> set A" and "\<forall>p \<in> set A. \<forall>q \<in> set A. fst p = fst q \<longrightarrow> snd p = snd q"
  shows "map_of A k = Some v"
proof -
  from assms(1) obtain v' where v': "map_of A k = Some v'"
    by (auto dest: weak_map_of_SomeI)
  then have "(k, v') \<in> set A" by (rule map_of_SomeD)
  then have "snd (k, v') = snd (k, v)"
    using assms(1) assms(2) [rule_format, of "(k, v')" "(k, v)"] by simp
  with v' show ?thesis by simp
qed

lemma files_of_consistent:
  assumes "consistent L" and "(req, member, legacy) \<in> set L"
  shows "files_of L req = Some member"
  unfolding files_of_def
proof (rule map_of_functional)
  show "(req, member) \<in> set (rev (map (\<lambda>e. (fst e, fst (snd e))) L))"
    using assms(2) by force
  show "\<forall>p \<in> set (rev (map (\<lambda>e. (fst e, fst (snd e))) L)).
          \<forall>q \<in> set (rev (map (\<lambda>e. (fst e, fst (snd e))) L)). fst p = fst q \<longrightarrow> snd p = snd q"
  proof (intro ballI impI)
    fix p q
    assume "p \<in> set (rev (map (\<lambda>e. (fst e, fst (snd e))) L))"
      and "q \<in> set (rev (map (\<lambda>e. (fst e, fst (snd e))) L))" and eq: "fst p = fst q"
    then obtain e e' where e: "e \<in> set L" "p = (fst e, fst (snd e))"
      and e': "e' \<in> set L" "q = (fst e', fst (snd e'))"
      by auto
    from eq e(2) e'(2) have "fst e = fst e'" by simp
    with assms(1) e(1) e'(1) have "snd e = snd e'" unfolding consistent_def by blast
    with e(2) e'(2) show "snd p = snd q" by simp
  qed
qed

lemma chains_of_consistent:
  assumes "consistent L" and "(req, member, legacy) \<in> set L"
  shows "chains_of L req = Some legacy"
  unfolding chains_of_def
proof (rule map_of_functional)
  show "(req, legacy) \<in> set (rev (map (\<lambda>e. (fst e, snd (snd e))) L))"
    using assms(2) by force
  show "\<forall>p \<in> set (rev (map (\<lambda>e. (fst e, snd (snd e))) L)).
          \<forall>q \<in> set (rev (map (\<lambda>e. (fst e, snd (snd e))) L)). fst p = fst q \<longrightarrow> snd p = snd q"
  proof (intro ballI impI)
    fix p q
    assume "p \<in> set (rev (map (\<lambda>e. (fst e, snd (snd e))) L))"
      and "q \<in> set (rev (map (\<lambda>e. (fst e, snd (snd e))) L))" and eq: "fst p = fst q"
    then obtain e e' where e: "e \<in> set L" "p = (fst e, snd (snd e))"
      and e': "e' \<in> set L" "q = (fst e', snd (snd e'))"
      by auto
    from eq e(2) e'(2) have "fst e = fst e'" by simp
    with assms(1) e(1) e'(1) have "snd e = snd e'" unfolding consistent_def by blast
    with e(2) e'(2) show "snd p = snd q" by simp
  qed
qed

lemma dom_files_of: "dom (files_of L) = fst ` set L"
  by (simp add: files_of_def dom_map_of_conv_image_fst image_image)

lemma dom_chains_of: "dom (chains_of L) = fst ` set L"
  by (simp add: chains_of_def dom_map_of_conv_image_fst image_image)

text \<open>
  C2: a valid mapping file is a preamble without header lines (possibly empty; the
  files of the archive begin with a title) followed by blocks, each a header line and then
  lines that are blank or have two tokens, the legacy code and the requested code, none
  of them a header; a requested code listed more than once is listed with the same
  member file and legacy code. On such a file the reader returns a pair of tables; every
  requested code listed in a block maps in the first to the member-file name of the
  block's header and in the second to the legacy code of its line; and the tables have
  no other keys.
\<close>

theorem mapping_file_round_trip:
  assumes "\<forall>l \<in> set preamble. \<not> is_header l"
    and "\<forall>b \<in> set blocks. valid_block b"
    and "consistent (listing blocks)"
  shows "\<exists>tabFile tabChain.
      parsePdbBundleChainIdFile (preamble @ concat (map block_lines blocks))
        = Inr (tabFile, tabChain)
      \<and> (\<forall>(requested, member, legacy) \<in> set (listing blocks).
            tabFile requested = Some member \<and> tabChain requested = Some legacy)
      \<and> dom tabFile = fst ` set (listing blocks)
      \<and> dom tabChain = fst ` set (listing blocks)"
proof (intro exI conjI)
  show "parsePdbBundleChainIdFile (preamble @ concat (map block_lines blocks))
     = Inr (files_of (listing blocks), chains_of (listing blocks))"
    using assms(1,2) by (rule tables_of_mapping_file)
  show "\<forall>(requested, member, legacy) \<in> set (listing blocks).
      files_of (listing blocks) requested = Some member
      \<and> chains_of (listing blocks) requested = Some legacy"
  proof (intro ballI, clarify)
    fix requested member legacy
    assume "(requested, member, legacy) \<in> set (listing blocks)"
    with assms(3) show "files_of (listing blocks) requested = Some member
      \<and> chains_of (listing blocks) requested = Some legacy"
      by (simp add: files_of_consistent chains_of_consistent)
  qed
  show "dom (files_of (listing blocks)) = fst ` set (listing blocks)" by (rule dom_files_of)
  show "dom (chains_of (listing blocks)) = fst ` set (listing blocks)" by (rule dom_chains_of)
qed

lemma sample_listing:
  "listing sample_blocks =
     [(''AA'', ''1abc-pdb-bundle1.pdb'', ''A''), (''AB'', ''1abc-pdb-bundle1.pdb'', ''B''),
      (''BA'', ''1abc-pdb-bundle2.pdb'', ''A'')]"
proof -
  have s: "py_split ''   A     AA'' = [''A'', ''AA'']" "py_split [] = []"
    "py_split ''   B     AB'' = [''B'', ''AB'']" "py_split ''   A     BA'' = [''A'', ''BA'']"
    by code_simp+
  have m: "member_name ''1abc-pdb-bundle1.pdb:'' = ''1abc-pdb-bundle1.pdb''"
    "member_name ''1abc-pdb-bundle2.pdb:'' = ''1abc-pdb-bundle2.pdb''"
    by code_simp+
  show ?thesis
    by (simp add: listing_def sample_blocks_def body_entries_def s m)
qed

lemma sample_preamble_ok: "\<forall>l \<in> set sample_preamble. \<not> is_header l"
proof -
  have "\<not> is_header ''    New chain ID            Original chain ID''" "\<not> is_header []"
    by code_simp+
  then show ?thesis by (simp add: sample_preamble_def)
qed

lemma sample_blocks_ok: "\<forall>b \<in> set sample_blocks. valid_block b"
proof -
  have s: "py_split ''   A     AA'' = [''A'', ''AA'']" "py_split [] = []"
    "py_split ''   B     AB'' = [''B'', ''AB'']" "py_split ''   A     BA'' = [''A'', ''BA'']"
    by code_simp+
  have h: "is_header ''1abc-pdb-bundle1.pdb:''" "is_header ''1abc-pdb-bundle2.pdb:''"
    "\<not> is_header ''   A     AA''" "\<not> is_header []" "\<not> is_header ''   B     AB''"
    "\<not> is_header ''   A     BA''"
    by code_simp+
  show ?thesis
    by (simp add: sample_blocks_def valid_block_def s h)
qed

lemma sample_consistent: "consistent (listing sample_blocks)"
  by (simp add: sample_listing consistent_def)

theorem mapping_file_round_trip_witness:
  "\<exists>tabFile tabChain.
     parsePdbBundleChainIdFile
       [''    New chain ID            Original chain ID'', [],
        ''1abc-pdb-bundle1.pdb:'', ''   A     AA'', [], ''   B     AB'',
        ''1abc-pdb-bundle2.pdb:'', ''   A     BA''] = Inr (tabFile, tabChain)
     \<and> tabFile ''AB'' = Some ''1abc-pdb-bundle1.pdb'' \<and> tabChain ''AB'' = Some ''B''
     \<and> tabFile ''BA'' = Some ''1abc-pdb-bundle2.pdb'' \<and> tabChain ''BA'' = Some ''A''
     \<and> dom tabFile = {''AA'', ''AB'', ''BA''} \<and> dom tabChain = {''AA'', ''AB'', ''BA''}"
proof -
  have f: "sample_preamble @ concat (map block_lines sample_blocks) =
       [''    New chain ID            Original chain ID'', [],
        ''1abc-pdb-bundle1.pdb:'', ''   A     AA'', [], ''   B     AB'',
        ''1abc-pdb-bundle2.pdb:'', ''   A     BA'']"
    by (simp add: sample_preamble_def sample_blocks_def block_lines_def)
  from mapping_file_round_trip [OF sample_preamble_ok sample_blocks_ok sample_consistent]
  obtain tabFile tabChain where
    t: "parsePdbBundleChainIdFile (sample_preamble @ concat (map block_lines sample_blocks))
        = Inr (tabFile, tabChain)"
    and a: "\<forall>(requested, member, legacy) \<in> set (listing sample_blocks).
            tabFile requested = Some member \<and> tabChain requested = Some legacy"
    and d: "dom tabFile = fst ` set (listing sample_blocks)"
      "dom tabChain = fst ` set (listing sample_blocks)"
    by (elim exE conjE) (rule that)
  from a have "tabFile ''AB'' = Some ''1abc-pdb-bundle1.pdb''" "tabChain ''AB'' = Some ''B''"
    "tabFile ''BA'' = Some ''1abc-pdb-bundle2.pdb''" "tabChain ''BA'' = Some ''A''"
    by (simp_all add: sample_listing)
  moreover from d have "dom tabFile = {''AA'', ''AB'', ''BA''}" "dom tabChain = {''AA'', ''AB'', ''BA''}"
    by (simp_all add: sample_listing)
  moreover note t [unfolded f]
  ultimately show ?thesis by (intro exI conjI)
qed

end
